theory Spec2Isabelle
  imports Main "HOL-Library.Word" "HOL-Library.Multiset"
begin

unbundle bit_operations_syntax

section \<open>Go values used by lightning/verification/checksum.go\<close>

text \<open>
  \<open>uint64\<close> is a 64-bit word: \<open>+\<close> wraps modulo \<open>2 ^ 64\<close>, \<open>XOR\<close> is Go's \<open>^\<close> on
  two operands and \<open>NOT\<close> is Go's unary \<open>^\<close>. Go's \<open>int\<close> is taken at its width on the
  64-bit platforms the loader is built for, so it is a 64-bit word as well, read in two's
  complement; \<open>uint64_of_int\<close> is the conversion \<open>uint64(x)\<close> of such an \<open>int\<close>.
\<close>

type_synonym uint64 = "64 word"
type_synonym byte = "8 word"
type_synonym go_int = "64 word"

definition uint64_of_int :: "go_int \<Rightarrow> uint64" where
  "uint64_of_int x = scast x"

text \<open>
  A Go slice is either \<open>nil\<close> or a sequence of elements. \<open>len\<close> of a nil slice is 0 and
  \<open>range\<close> over a nil slice runs no iteration: \<open>elems\<close> lists what a \<open>range\<close> loop
  visits, in order.
\<close>

datatype 'a slice = nil | Slice "'a list"

fun elems :: "'a slice \<Rightarrow> 'a list" where
  "elems nil = []"
| "elems (Slice xs) = xs"

definition len :: "'a slice \<Rightarrow> go_int" where
  "len s = of_nat (length (elems s))"

text \<open>
  Modelled from the spec: the type \<open>kvec.KvPair\<close> is declared in the package
  \<open>github.com/pingcap/tidb/util/kvencoder\<close>, which is not among the sources. The code
  reads its fields \<open>Key\<close> and \<open>Val\<close> as byte slices; the spec calls it
  "(key, value) byte-string pairs".
\<close>

record KvPair =
  Key :: "byte slice"
  Val :: "byte slice"

section \<open>The standard library's hash/crc64\<close>

text \<open>
  The package \<open>hash/crc64\<close> belongs to Go's standard library and is not among the
  sources. The spec names what the code takes from it as "a fixed 64-bit
  cyclic-redundancy-check table (standard ECMA polynomial)" and "the rolling CRC-64
  update"; the definitions below write them as the library defines them, byte by byte.
\<close>

text \<open>
  Modelled from the spec: the constant \<open>crc64.ECMA\<close>, the ECMA polynomial in the
  library's bit-reversed form.
\<close>

definition ECMA :: uint64 where
  "ECMA = 0xC96C5795D7870F42"

text \<open>
  Modelled from the spec: the body of the inner loop of \<open>crc64.MakeTable\<close>, one bit of
  the table entry: shift right by one, and XOR the polynomial in when the bit shifted
  out was set.
\<close>

definition makeTable_bit :: "uint64 \<Rightarrow> uint64 \<Rightarrow> uint64" where
  "makeTable_bit poly crc =
     (if crc AND 1 = 1 then drop_bit 1 crc XOR poly else drop_bit 1 crc)"

text \<open>
  Modelled from the spec: the body of the outer loop of \<open>crc64.MakeTable\<close>, the entry
  of index \<open>i\<close>: eight bit steps from \<open>uint64(i)\<close>.
\<close>

definition makeTable_entry :: "uint64 \<Rightarrow> nat \<Rightarrow> uint64" where
  "makeTable_entry poly i = (makeTable_bit poly ^^ 8) (of_nat i)"

text \<open>
  Modelled from the spec: \<open>crc64.MakeTable\<close>. A \<open>Table\<close> is an array of 256 words,
  here the list of its entries.
\<close>

definition MakeTable :: "uint64 \<Rightarrow> uint64 list" where
  "MakeTable poly = map (makeTable_entry poly) [0..<256]"

text \<open>
  Modelled from the spec: the loop body of \<open>crc64.Update\<close>,
  \<open>crc = tab[byte(crc)^v] ^ (crc >> 8)\<close>.
\<close>

definition crc64_step :: "uint64 list \<Rightarrow> uint64 \<Rightarrow> byte \<Rightarrow> uint64" where
  "crc64_step tab crc v = tab ! unat ((ucast crc :: byte) XOR v) XOR drop_bit 8 crc"

text \<open>
  Modelled from the spec: \<open>crc64.Update\<close>, the rolling update. It complements the
  state, consumes the bytes in order, one step each, and complements the result. (For
  long inputs the library runs an eight-bytes-at-a-time variant of the same function.)
\<close>

definition crc64_Update :: "uint64 \<Rightarrow> uint64 list \<Rightarrow> byte slice \<Rightarrow> uint64" where
  "crc64_Update crc tab p = NOT (foldl (crc64_step tab) (NOT crc) (elems p))"

section \<open>The checksum accumulator\<close>

definition ecmaTable :: "uint64 list" where
  "ecmaTable = MakeTable ECMA"

record KVChecksum =
  bytes :: uint64
  kvs :: uint64
  checksum :: uint64

definition NewKVChecksum :: "uint64 \<Rightarrow> KVChecksum" where
  "NewKVChecksum c = \<lparr>bytes = 0, kvs = 0, checksum = c\<rparr>"

definition MakeKVChecksum :: "uint64 \<Rightarrow> uint64 \<Rightarrow> uint64 \<Rightarrow> KVChecksum" where
  "MakeKVChecksum b k c = \<lparr>bytes = b, kvs = k, checksum = c\<rparr>"

text \<open>
  \<open>Update\<close> declares four local variables, all zero, and runs its loop body once per
  pair of the batch, in order; then it folds the locals into the receiver. The receiver
  is passed in and the updated receiver is returned.
\<close>

record Update_locals =
  l_checksum :: uint64
  l_sum :: uint64
  l_kvNum :: go_int
  l_bytes :: go_int

definition Update_init :: Update_locals where
  "Update_init = \<lparr>l_checksum = 0, l_sum = 0, l_kvNum = 0, l_bytes = 0\<rparr>"

definition Update_body :: "Update_locals \<Rightarrow> KvPair \<Rightarrow> Update_locals" where
  "Update_body l pair =
     (let l1 = l\<lparr>l_sum := crc64_Update 0 ecmaTable (Key pair)\<rparr>;
          l2 = l1\<lparr>l_sum := crc64_Update (l_sum l1) ecmaTable (Val pair)\<rparr>;
          l3 = l2\<lparr>l_checksum := l_checksum l2 XOR l_sum l2\<rparr>;
          l4 = l3\<lparr>l_kvNum := l_kvNum l3 + 1\<rparr>
      in l4\<lparr>l_bytes := l_bytes l4 + (len (Key pair) + len (Val pair))\<rparr>)"

definition Update :: "KVChecksum \<Rightarrow> KvPair slice \<Rightarrow> KVChecksum" where
  "Update c batch =
     (let l = foldl Update_body Update_init (elems batch);
          c1 = c\<lparr>bytes := bytes c + uint64_of_int (l_bytes l)\<rparr>;
          c2 = c1\<lparr>kvs := kvs c1 + uint64_of_int (l_kvNum l)\<rparr>
      in c2\<lparr>checksum := checksum c2 XOR l_checksum l\<rparr>)"

text \<open>
  \<open>Add\<close> reads three fields of \<open>other\<close> and writes the three fields of the receiver,
  one statement per field. The receiver is passed in and the updated receiver is
  returned; \<open>other\<close> is not written.
\<close>

definition Add :: "KVChecksum \<Rightarrow> KVChecksum \<Rightarrow> KVChecksum" where
  "Add c other =
     (let c1 = c\<lparr>bytes := bytes c + bytes other\<rparr>;
          c2 = c1\<lparr>kvs := kvs c1 + kvs other\<rparr>
      in c2\<lparr>checksum := checksum c2 XOR checksum other\<rparr>)"

text \<open>
  Both arguments of \<open>Add\<close> are pointers, which may name the same accumulator. The same
  three statements on a store of accumulators, each statement reading the store the
  previous one left: \<open>Add_in_store\<close> is the check that passing the receiver by value
  loses nothing when the pointers alias.
\<close>

definition Add_in_store :: "(nat \<Rightarrow> KVChecksum) \<Rightarrow> nat \<Rightarrow> nat \<Rightarrow> (nat \<Rightarrow> KVChecksum)" where
  "Add_in_store h c other =
     (let h1 = h(c := (h c)\<lparr>bytes := bytes (h c) + bytes (h other)\<rparr>);
          h2 = h1(c := (h1 c)\<lparr>kvs := kvs (h1 c) + kvs (h1 other)\<rparr>)
      in h2(c := (h2 c)\<lparr>checksum := checksum (h2 c) XOR checksum (h2 other)\<rparr>))"

definition Sum :: "KVChecksum \<Rightarrow> uint64" where
  "Sum c = checksum c"

definition SumSize :: "KVChecksum \<Rightarrow> uint64" where
  "SumSize c = bytes c"

definition SumKVS :: "KVChecksum \<Rightarrow> uint64" where
  "SumKVS c = kvs c"

section \<open>Notions the properties are stated with\<close>

text \<open>
  The digest of one pair is what the loop body of \<open>Update\<close> leaves in \<open>sum\<close>: the CRC
  update from seed 0 over the key, continued over the value. \<open>pair_len\<close> is
  \<open>len(pair.Key) + len(pair.Val)\<close> as a natural number, and \<open>xor_all\<close> XORs a list of
  digests together, starting from 0.
\<close>

definition pair_digest :: "KvPair \<Rightarrow> uint64" where
  "pair_digest pair =
     crc64_Update (crc64_Update 0 ecmaTable (Key pair)) ecmaTable (Val pair)"

definition pair_len :: "KvPair \<Rightarrow> nat" where
  "pair_len pair = length (elems (Key pair)) + length (elems (Val pair))"

definition xor_all :: "uint64 list \<Rightarrow> uint64" where
  "xor_all ds = fold (XOR) ds 0"

text \<open>The conversion \<open>[]byte(s)\<close> of a string.\<close>

definition bytes_of :: "string \<Rightarrow> byte slice" where
  "bytes_of s = Slice (map of_char s)"

text \<open>
  A sequence of \<open>Update\<close> calls on one accumulator, one call per batch, and the
  accumulator \<open>acc bs\<close> that a worker builds from the empty accumulator over the batches
  \<open>bs\<close> of its partition. \<open>pairs_of bs\<close> lists the pairs of the batches.
\<close>

definition Updates :: "KVChecksum \<Rightarrow> KvPair slice list \<Rightarrow> KVChecksum" where
  "Updates c bs = foldl Update c bs"

definition acc :: "KvPair slice list \<Rightarrow> KVChecksum" where
  "acc bs = Updates (NewKVChecksum 0) bs"

definition pairs_of :: "KvPair slice list \<Rightarrow> KvPair list" where
  "pairs_of bs = concat (map elems bs)"

text \<open>
  How an accumulator came to be: created empty, or an earlier accumulator after an
  \<open>Update\<close> with a batch, or an earlier accumulator after \<open>Add\<close> of another one that
  has a history of its own. \<open>run\<close> replays a history with the code's operations and
  \<open>folded\<close> lists every pair folded in on the way, directly or through a merge.
\<close>

datatype history =
    Fresh
  | Updated history "KvPair slice"
  | Merged history history

fun run :: "history \<Rightarrow> KVChecksum" where
  "run Fresh = NewKVChecksum 0"
| "run (Updated h batch) = Update (run h) batch"
| "run (Merged h other) = Add (run h) (run other)"

fun folded :: "history \<Rightarrow> KvPair list" where
  "folded Fresh = []"
| "folded (Updated h batch) = folded h @ elems batch"
| "folded (Merged h other) = folded h @ folded other"

section \<open>Facts about XOR and sums over lists\<close>

lemma uint64_of_int_id: "uint64_of_int x = x"
  by (simp add: uint64_of_int_def)

lemma fold_xor_acc: "fold (XOR) ds (a :: uint64) = a XOR fold (XOR) ds 0"
proof (induction ds arbitrary: a)
  case Nil
  show ?case by simp
next
  case (Cons d ds)
  have "fold (XOR) (d # ds) a = fold (XOR) ds (d XOR a)" by simp
  also have "\<dots> = (d XOR a) XOR fold (XOR) ds 0" by (rule Cons.IH)
  also have "\<dots> = a XOR (d XOR fold (XOR) ds 0)" by (simp add: ac_simps)
  also have "d XOR fold (XOR) ds 0 = fold (XOR) ds (d XOR 0)"
    using Cons.IH [of "d XOR 0"] by simp
  finally show ?case by simp
qed

lemma xor_all_Nil: "xor_all [] = 0"
  by (simp add: xor_all_def)

lemma xor_all_Cons: "xor_all (d # ds) = d XOR xor_all ds"
  using fold_xor_acc [of ds d] by (simp add: xor_all_def)

lemma xor_all_append: "xor_all (ds @ es) = xor_all ds XOR xor_all es"
  by (induction ds) (simp_all add: xor_all_Nil xor_all_Cons ac_simps)

lemma xor_all_mset:
  assumes "mset ds = mset es"
  shows "xor_all ds = xor_all es"
proof -
  have "fold (XOR) ds = fold (XOR) es"
    by (rule fold_multiset_equiv [OF _ assms]) (simp add: fun_eq_iff ac_simps)
  then show ?thesis by (simp add: xor_all_def)
qed

lemma sum_list_mset:
  assumes "mset xs = mset ys"
  shows "sum_list (map f xs) = sum_list (map (f :: 'a \<Rightarrow> nat) ys)"
proof -
  have "sum_list (map f xs) = sum_mset (image_mset f (mset xs))"
    by (simp flip: sum_mset_sum_list)
  also have "\<dots> = sum_mset (image_mset f (mset ys))" by (simp add: assms)
  also have "\<dots> = sum_list (map f ys)" by (simp flip: sum_mset_sum_list)
  finally show ?thesis .
qed

section \<open>What the loop of Update computes\<close>

lemma Update_body_checksum:
  "l_checksum (Update_body l pair) = l_checksum l XOR pair_digest pair"
  by (simp add: Update_body_def pair_digest_def Let_def)

lemma Update_body_kvNum: "l_kvNum (Update_body l pair) = l_kvNum l + 1"
  by (simp add: Update_body_def Let_def)

lemma Update_body_bytes:
  "l_bytes (Update_body l pair) = l_bytes l + of_nat (pair_len pair)"
  by (simp add: Update_body_def pair_len_def len_def Let_def)

lemma loop_checksum:
  "l_checksum (foldl Update_body l ps) = l_checksum l XOR xor_all (map pair_digest ps)"
  by (induction ps arbitrary: l)
     (simp_all add: xor_all_Nil xor_all_Cons Update_body_checksum ac_simps)

lemma loop_kvNum:
  "l_kvNum (foldl Update_body l ps) = l_kvNum l + of_nat (length ps)"
  by (induction ps arbitrary: l) (simp_all add: Update_body_kvNum)

lemma loop_bytes:
  "l_bytes (foldl Update_body l ps) = l_bytes l + of_nat (sum_list (map pair_len ps))"
  by (induction ps arbitrary: l) (simp_all add: Update_body_bytes)

lemma Update_fields:
  "Update c batch =
     \<lparr>bytes = bytes c + of_nat (sum_list (map pair_len (elems batch))),
      kvs = kvs c + of_nat (length (elems batch)),
      checksum = checksum c XOR xor_all (map pair_digest (elems batch))\<rparr>"
  by (simp add: Update_def Let_def uint64_of_int_id loop_checksum loop_kvNum loop_bytes
      Update_init_def)

lemma Add_fields:
  "Add c other =
     \<lparr>bytes = bytes c + bytes other, kvs = kvs c + kvs other,
      checksum = checksum c XOR checksum other\<rparr>"
  by (simp add: Add_def Let_def)

lemma Add_in_store_eq: "Add_in_store h c other = h(c := Add (h c) (h other))"
  by (cases "c = other") (simp_all add: Add_in_store_def Add_def Let_def fun_eq_iff)

section \<open>Sequences of updates and merges\<close>

lemma Updates_fields:
  "Updates c bs =
     \<lparr>bytes = bytes c + of_nat (sum_list (map pair_len (pairs_of bs))),
      kvs = kvs c + of_nat (length (pairs_of bs)),
      checksum = checksum c XOR xor_all (map pair_digest (pairs_of bs))\<rparr>"
proof (induction bs arbitrary: c)
  case Nil
  show ?case by (simp add: Updates_def pairs_of_def xor_all_Nil)
next
  case (Cons b bs)
  have "Updates c (b # bs) = Updates (Update c b) bs" by (simp add: Updates_def)
  also have "\<dots> =
     \<lparr>bytes = bytes (Update c b) + of_nat (sum_list (map pair_len (pairs_of bs))),
      kvs = kvs (Update c b) + of_nat (length (pairs_of bs)),
      checksum = checksum (Update c b) XOR xor_all (map pair_digest (pairs_of bs))\<rparr>"
    by (rule Cons.IH)
  finally show ?case
    by (simp add: Update_fields pairs_of_def xor_all_append ac_simps)
qed

lemma acc_fields:
  "acc bs =
     \<lparr>bytes = of_nat (sum_list (map pair_len (pairs_of bs))),
      kvs = of_nat (length (pairs_of bs)),
      checksum = xor_all (map pair_digest (pairs_of bs))\<rparr>"
  by (simp add: acc_def Updates_fields NewKVChecksum_def)

lemma Updates_mset:
  assumes "mset (pairs_of bs) = mset (pairs_of bs')"
  shows "Updates c bs = Updates c bs'"
proof -
  have "sum_list (map pair_len (pairs_of bs)) = sum_list (map pair_len (pairs_of bs'))"
    by (rule sum_list_mset [OF assms])
  moreover have "length (pairs_of bs) = length (pairs_of bs')"
    using assms by (rule mset_eq_length)
  moreover have "xor_all (map pair_digest (pairs_of bs)) =
      xor_all (map pair_digest (pairs_of bs'))"
    by (rule xor_all_mset) (simp add: assms)
  ultimately show ?thesis by (simp add: Updates_fields)
qed

lemma pairs_of_mset:
  assumes "mset bs = mset bs'"
  shows "mset (pairs_of bs) = mset (pairs_of bs')"
proof -
  have "mset (pairs_of bs) = sum_mset (image_mset (\<lambda>b. mset (elems b)) (mset bs))" for bs
    by (induction bs) (simp_all add: pairs_of_def)
  then show ?thesis by (simp add: assms)
qed

lemma Add_assoc: "Add (Add a b) c = Add a (Add b c)"
  by (simp add: Add_fields ac_simps)

lemma Add_commute: "Add a b = Add b a"
  by (simp add: Add_fields ac_simps)

lemma Add_acc: "Add (acc bs) (acc bs') = acc (bs @ bs')"
  by (simp add: Add_fields acc_fields pairs_of_def xor_all_append)

section \<open>The CRC update\<close>



lemma crc64_Update_rolling:
  "crc64_Update (crc64_Update crc tab p) tab q = crc64_Update crc tab (Slice (elems p @ elems q))"
  by (simp add: crc64_Update_def)

lemma pair_digest_concat:
  "pair_digest pair = crc64_Update 0 ecmaTable (Slice (elems (Key pair) @ elems (Val pair)))"
  by (simp add: pair_digest_def crc64_Update_rolling)


lemma ecmaTable_nth: "i < 256 \<Longrightarrow> ecmaTable ! i = makeTable_entry ECMA i"
  by (simp add: ecmaTable_def MakeTable_def)


lemma makeTable_entry_unroll:
  "makeTable_entry poly i =
     makeTable_bit poly (makeTable_bit poly (makeTable_bit poly (makeTable_bit poly
       (makeTable_bit poly (makeTable_bit poly (makeTable_bit poly (makeTable_bit poly
         (of_nat i))))))))"
  by (simp add: makeTable_entry_def eval_nat_numeral)

lemmas crc64_eval =
  crc64_step_def ecmaTable_nth makeTable_entry_unroll makeTable_bit_def ECMA_def

lemma step_k: "crc64_step ecmaTable 0xFFFFFFFFFFFFFFFF 0x6B = 0xCFD8CAD686C4C8C7"
  by (simp add: crc64_eval)

lemma step_1: "crc64_step ecmaTable 0xCFD8CAD686C4C8C7 0x31 = 0xA4EDB20E4E581898"
  by (simp add: crc64_eval)

lemma step_v: "crc64_step ecmaTable 0xA4EDB20E4E581898 0x76 = 0x2EBCA14738BD5E67"
  by (simp add: crc64_eval)

lemma step_1': "crc64_step ecmaTable 0x2EBCA14738BD5E67 0x31 = 0x9657C380AA07A2DE"
  by (simp add: crc64_eval)

lemma bytes_of_k1v1: "bytes_of ''k1v1'' = Slice [0x6B, 0x31, 0x76, 0x31]"
  by (simp add: bytes_of_def)

lemma crc64_k1v1: "crc64_Update 0 ecmaTable (bytes_of ''k1v1'') = 0x69A83C7F55F85D21"
proof -
  have "NOT (0 :: uint64) = 0xFFFFFFFFFFFFFFFF" by simp
  then have "foldl (crc64_step ecmaTable) (NOT 0) [0x6B, 0x31, 0x76, 0x31] = 0x9657C380AA07A2DE"
    by (simp only: foldl.simps step_k step_1 step_v step_1')
  then have "crc64_Update 0 ecmaTable (bytes_of ''k1v1'') = NOT 0x9657C380AA07A2DE"
    by (simp only: crc64_Update_def bytes_of_k1v1 elems.simps)
  then show ?thesis by simp
qed

section \<open>Histories of accumulators\<close>

lemma run_fields:
  "run h =
     \<lparr>bytes = of_nat (sum_list (map pair_len (folded h))),
      kvs = of_nat (length (folded h)),
      checksum = xor_all (map pair_digest (folded h))\<rparr>"
proof (induction h)
  case Fresh
  show ?case by (simp add: NewKVChecksum_def xor_all_Nil)
next
  case (Updated h batch)
  then show ?case by (simp add: Update_fields xor_all_append)
next
  case (Merged h other)
  then show ?case by (simp add: Add_fields xor_all_append)
qed

lemma run_mset:
  assumes "mset (folded h') = mset (folded h)"
  shows "run h' = run h"
proof -
  have "sum_list (map pair_len (folded h')) = sum_list (map pair_len (folded h))"
    by (rule sum_list_mset [OF assms])
  moreover have "length (folded h') = length (folded h)"
    using assms by (rule mset_eq_length)
  moreover have "xor_all (map pair_digest (folded h')) = xor_all (map pair_digest (folded h))"
    by (rule xor_all_mset) (simp add: assms)
  ultimately show ?thesis by (simp add: run_fields)
qed

section \<open>The claims\<close>

text \<open>
  C1. \<open>Add\<close> (the spec's Merge) is associative and commutative, and it agrees with
  sequential processing: for accumulators built by \<open>Update\<close> from the empty accumulator
  over the batches of three partitions \<open>P1\<close>, \<open>P2\<close>, \<open>P3\<close>, both ways of bracketing
  the merge give the same accumulator, and that accumulator is the one a single worker
  builds by \<open>Update\<close>-ing the batches of all three partitions in any interleaving \<open>bs\<close>
  (any order of the same batches).
\<close>

theorem Add_assoc_commute_sequential:
  "Add (Add a b) c = Add a (Add b c) \<and> Add a b = Add b a \<and>
   Add (Add (acc P1) (acc P2)) (acc P3) = Add (acc P1) (Add (acc P2) (acc P3)) \<and>
   (\<forall>bs. mset bs = mset P1 + mset P2 + mset P3 \<longrightarrow>
      Add (Add (acc P1) (acc P2)) (acc P3) = acc bs)"
proof (intro conjI allI impI)
  show "Add (Add a b) c = Add a (Add b c)" by (rule Add_assoc)
  show "Add a b = Add b a" by (rule Add_commute)
  show "Add (Add (acc P1) (acc P2)) (acc P3) = Add (acc P1) (Add (acc P2) (acc P3))"
    by (rule Add_assoc)
next
  fix bs :: "KvPair slice list"
  assume "mset bs = mset P1 + mset P2 + mset P3"
  then have "mset bs = mset ((P1 @ P2) @ P3)" by simp
  then have "mset (pairs_of bs) = mset (pairs_of ((P1 @ P2) @ P3))"
    by (rule pairs_of_mset)
  then have "acc bs = acc ((P1 @ P2) @ P3)"
    unfolding acc_def by (rule Updates_mset)
  then show "Add (Add (acc P1) (acc P2)) (acc P3) = acc bs"
    by (simp only: Add_acc)
qed


theorem Add_assoc_commute_sequential_witness:
  "mset [Slice [\<lparr>Key = bytes_of ''k3'', Val = nil\<rparr>],
         Slice [\<lparr>Key = bytes_of ''k1'', Val = bytes_of ''v1''\<rparr>],
         Slice [\<lparr>Key = bytes_of ''k2'', Val = bytes_of ''v2''\<rparr>]] =
   mset [Slice [\<lparr>Key = bytes_of ''k1'', Val = bytes_of ''v1''\<rparr>]] +
   mset [Slice [\<lparr>Key = bytes_of ''k2'', Val = bytes_of ''v2''\<rparr>]] +
   mset [Slice [\<lparr>Key = bytes_of ''k3'', Val = nil\<rparr>]] \<and>
   Add (Add (acc [Slice [\<lparr>Key = bytes_of ''k1'', Val = bytes_of ''v1''\<rparr>]])
            (acc [Slice [\<lparr>Key = bytes_of ''k2'', Val = bytes_of ''v2''\<rparr>]]))
       (acc [Slice [\<lparr>Key = bytes_of ''k3'', Val = nil\<rparr>]]) =
   acc [Slice [\<lparr>Key = bytes_of ''k3'', Val = nil\<rparr>],
        Slice [\<lparr>Key = bytes_of ''k1'', Val = bytes_of ''v1''\<rparr>],
        Slice [\<lparr>Key = bytes_of ''k2'', Val = bytes_of ''v2''\<rparr>]]"
proof -
  let ?b1 = "Slice [\<lparr>Key = bytes_of ''k1'', Val = bytes_of ''v1''\<rparr>]"
  let ?b2 = "Slice [\<lparr>Key = bytes_of ''k2'', Val = bytes_of ''v2''\<rparr>]"
  let ?b3 = "Slice [\<lparr>Key = bytes_of ''k3'', Val = nil\<rparr>]"
  have h: "mset [?b3, ?b1, ?b2] = mset [?b1] + mset [?b2] + mset [?b3]"
    by simp
  have "\<forall>bs. mset bs = mset [?b1] + mset [?b2] + mset [?b3] \<longrightarrow>
      Add (Add (acc [?b1]) (acc [?b2])) (acc [?b3]) = acc bs"
    by (rule Add_assoc_commute_sequential [THEN conjunct2, THEN conjunct2, THEN conjunct2])
  with h have "Add (Add (acc [?b1]) (acc [?b2])) (acc [?b3]) = acc [?b3, ?b1, ?b2]"
    by blast
  with h show ?thesis by (intro conjI)
qed

text \<open>
  C2. For every accumulator and every batch, \<open>Update\<close> adds to \<open>bytes\<close> the sum over
  the batch of \<open>len(key) + len(value)\<close>, adds to \<open>kvs\<close> the number of pairs of the
  batch, XORs \<open>checksum\<close> with the XOR of the digests of the pairs, and changes nothing
  else. The additions are those of \<open>uint64\<close>.
\<close>

theorem Update_effect:
  "Update c batch =
     c\<lparr>bytes := bytes c + of_nat (sum_list (map pair_len (elems batch))),
       kvs := kvs c + of_nat (length (elems batch)),
       checksum := checksum c XOR xor_all (map pair_digest (elems batch))\<rparr>"
  by (simp add: Update_fields)

text \<open>
  C3. \<open>Update\<close> is insensitive to order and batching: from any accumulator, two
  sequences of \<open>Update\<close> calls whose batches hold the same multiset of pairs end in the
  same accumulator; in particular \<open>Update([a, b])\<close> then \<open>Update([d])\<close> ends where the
  single call \<open>Update([d, b, a])\<close> does.
\<close>

theorem Update_order_batching_insensitive:
  "(\<forall>bs bs'. mset (pairs_of bs) = mset (pairs_of bs') \<longrightarrow> Updates c bs = Updates c bs') \<and>
   Update (Update c (Slice [a, b])) (Slice [d]) = Update c (Slice [d, b, a])"
proof (intro conjI allI impI)
  fix bs bs' :: "KvPair slice list"
  assume "mset (pairs_of bs) = mset (pairs_of bs')"
  then show "Updates c bs = Updates c bs'" by (rule Updates_mset)
next
  have "mset (pairs_of [Slice [a, b], Slice [d]]) = mset (pairs_of [Slice [d, b, a]])"
    by (simp add: pairs_of_def)
  then have "Updates c [Slice [a, b], Slice [d]] = Updates c [Slice [d, b, a]]"
    by (rule Updates_mset)
  then show "Update (Update c (Slice [a, b])) (Slice [d]) = Update c (Slice [d, b, a])"
    by (simp add: Updates_def)
qed

theorem Update_order_batching_insensitive_witness:
  "mset (pairs_of [Slice [\<lparr>Key = bytes_of ''k1'', Val = bytes_of ''v1''\<rparr>,
                          \<lparr>Key = bytes_of ''k2'', Val = bytes_of ''v2''\<rparr>],
                   Slice [\<lparr>Key = bytes_of ''k1'', Val = bytes_of ''v1''\<rparr>]]) =
   mset (pairs_of [Slice [\<lparr>Key = bytes_of ''k1'', Val = bytes_of ''v1''\<rparr>], nil,
                   Slice [\<lparr>Key = bytes_of ''k1'', Val = bytes_of ''v1''\<rparr>,
                          \<lparr>Key = bytes_of ''k2'', Val = bytes_of ''v2''\<rparr>]]) \<and>
   Updates (MakeKVChecksum 7 1 5)
     [Slice [\<lparr>Key = bytes_of ''k1'', Val = bytes_of ''v1''\<rparr>,
             \<lparr>Key = bytes_of ''k2'', Val = bytes_of ''v2''\<rparr>],
      Slice [\<lparr>Key = bytes_of ''k1'', Val = bytes_of ''v1''\<rparr>]] =
   Updates (MakeKVChecksum 7 1 5)
     [Slice [\<lparr>Key = bytes_of ''k1'', Val = bytes_of ''v1''\<rparr>], nil,
      Slice [\<lparr>Key = bytes_of ''k1'', Val = bytes_of ''v1''\<rparr>,
             \<lparr>Key = bytes_of ''k2'', Val = bytes_of ''v2''\<rparr>]]"
proof -
  let ?p1 = "\<lparr>Key = bytes_of ''k1'', Val = bytes_of ''v1''\<rparr>"
  let ?p2 = "\<lparr>Key = bytes_of ''k2'', Val = bytes_of ''v2''\<rparr>"
  have h: "mset (pairs_of [Slice [?p1, ?p2], Slice [?p1]]) =
      mset (pairs_of [Slice [?p1], nil, Slice [?p1, ?p2]])"
    by (simp add: pairs_of_def)
  have "\<forall>bs bs'. mset (pairs_of bs) = mset (pairs_of bs') \<longrightarrow>
      Updates (MakeKVChecksum 7 1 5) bs = Updates (MakeKVChecksum 7 1 5) bs'"
    by (rule Update_order_batching_insensitive [THEN conjunct1])
  with h have "Updates (MakeKVChecksum 7 1 5) [Slice [?p1, ?p2], Slice [?p1]] =
      Updates (MakeKVChecksum 7 1 5) [Slice [?p1], nil, Slice [?p1, ?p2]]"
    by blast
  with h show ?thesis by (intro conjI)
qed

text \<open>
  C4. \<open>Add\<close> sets \<open>bytes\<close> and \<open>kvs\<close> of the receiver to the sums with the fields of
  \<open>other\<close> and \<open>checksum\<close> to the XOR; merging \<open>(10, 2, X)\<close> with \<open>(5, 1, Y)\<close> and then
  with the empty \<open>(0, 0, 0)\<close> gives \<open>(15, 3, X XOR Y)\<close>.
\<close>

theorem Add_effect:
  "bytes (Add c other) = bytes c + bytes other \<and>
   kvs (Add c other) = kvs c + kvs other \<and>
   checksum (Add c other) = checksum c XOR checksum other \<and>
   Add (Add (MakeKVChecksum 10 2 X) (MakeKVChecksum 5 1 Y)) (MakeKVChecksum 0 0 0) =
     MakeKVChecksum 15 3 (X XOR Y)"
  by (simp add: Add_fields MakeKVChecksum_def)

text \<open>
  C5. The digest of a pair is the rolling CRC-64-ECMA of key followed by value: the loop
  body of \<open>Update\<close> leaves in \<open>sum\<close> the CRC update from seed 0 over the key, continued
  over the value without resetting, which is the CRC update from seed 0 over the
  concatenation, and XORs it into the batch checksum. \<open>Update\<close> of the empty accumulator
  with the single pair \<open>("k1", "v1")\<close> leaves \<open>Sum()\<close> equal to the CRC-64-ECMA of
  \<open>"k1v1"\<close>, which is \<open>0x69A83C7F55F85D21\<close>, with \<open>SumSize() = 4\<close> and \<open>SumKVS() = 1\<close>.
\<close>

theorem digest_is_rolling_crc64:
  "l_sum (Update_body l pair) =
     crc64_Update (crc64_Update 0 ecmaTable (Key pair)) ecmaTable (Val pair) \<and>
   l_sum (Update_body l pair) =
     crc64_Update 0 ecmaTable (Slice (elems (Key pair) @ elems (Val pair))) \<and>
   l_checksum (Update_body l pair) = l_checksum l XOR l_sum (Update_body l pair) \<and>
   Sum (Update (NewKVChecksum 0) (Slice [\<lparr>Key = bytes_of ''k1'', Val = bytes_of ''v1''\<rparr>])) =
     crc64_Update 0 ecmaTable (bytes_of ''k1v1'') \<and>
   Sum (Update (NewKVChecksum 0) (Slice [\<lparr>Key = bytes_of ''k1'', Val = bytes_of ''v1''\<rparr>])) =
     0x69A83C7F55F85D21 \<and>
   SumSize (Update (NewKVChecksum 0) (Slice [\<lparr>Key = bytes_of ''k1'', Val = bytes_of ''v1''\<rparr>])) = 4 \<and>
   SumKVS (Update (NewKVChecksum 0) (Slice [\<lparr>Key = bytes_of ''k1'', Val = bytes_of ''v1''\<rparr>])) = 1"
proof -
  let ?p = "\<lparr>Key = bytes_of ''k1'', Val = bytes_of ''v1''\<rparr>"
  have body: "l_sum (Update_body l pair) =
      crc64_Update (crc64_Update 0 ecmaTable (Key pair)) ecmaTable (Val pair)"
    by (simp add: Update_body_def Let_def)
  have concat: "l_sum (Update_body l pair) =
      crc64_Update 0 ecmaTable (Slice (elems (Key pair) @ elems (Val pair)))"
    by (simp only: body crc64_Update_rolling)
  have chk: "l_checksum (Update_body l pair) = l_checksum l XOR l_sum (Update_body l pair)"
    by (simp add: Update_body_def Let_def)
  have "pair_digest ?p = crc64_Update 0 ecmaTable (bytes_of ''k1v1'')"
    by (simp add: pair_digest_concat bytes_of_def)
  then have sum: "Sum (Update (NewKVChecksum 0) (Slice [?p])) =
      crc64_Update 0 ecmaTable (bytes_of ''k1v1'')"
    by (simp add: Sum_def Update_fields NewKVChecksum_def xor_all_Cons xor_all_Nil)
  have size: "SumSize (Update (NewKVChecksum 0) (Slice [?p])) = 4"
    by (simp add: SumSize_def Update_fields NewKVChecksum_def pair_len_def bytes_of_def)
  have num: "SumKVS (Update (NewKVChecksum 0) (Slice [?p])) = 1"
    by (simp add: SumKVS_def Update_fields NewKVChecksum_def)
  from body concat chk sum size num show ?thesis
    by (simp only: crc64_k1v1 simp_thms)
qed

text \<open>
  C6. In every accumulator reached from the empty accumulator by \<open>Update\<close> and \<open>Add\<close>
  calls (where each accumulator merged in is reached the same way), \<open>checksum\<close> is the
  XOR of the digests of all pairs folded in, directly or through a merge, and \<open>bytes\<close>
  and \<open>kvs\<close> are the sums of their lengths and their number; two histories that fold in
  the same multiset of pairs reach the same accumulator, whatever the order.
\<close>

theorem accumulator_invariant:
  "checksum (run h) = xor_all (map pair_digest (folded h)) \<and>
   bytes (run h) = of_nat (sum_list (map pair_len (folded h))) \<and>
   kvs (run h) = of_nat (length (folded h)) \<and>
   (\<forall>h'. mset (folded h') = mset (folded h) \<longrightarrow> run h' = run h)"
proof (intro conjI allI impI)
  show "checksum (run h) = xor_all (map pair_digest (folded h))"
    by (simp add: run_fields)
  show "bytes (run h) = of_nat (sum_list (map pair_len (folded h)))"
    by (simp add: run_fields)
  show "kvs (run h) = of_nat (length (folded h))"
    by (simp add: run_fields)
next
  fix h'
  assume "mset (folded h') = mset (folded h)"
  then show "run h' = run h" by (rule run_mset)
qed

theorem accumulator_invariant_witness:
  "mset (folded (Updated (Updated Fresh
       (Slice [\<lparr>Key = bytes_of ''k3'', Val = nil\<rparr>, \<lparr>Key = bytes_of ''k1'', Val = bytes_of ''v1''\<rparr>]))
       (Slice [\<lparr>Key = bytes_of ''k2'', Val = bytes_of ''v2''\<rparr>]))) =
   mset (folded (Merged
       (Updated Fresh (Slice [\<lparr>Key = bytes_of ''k1'', Val = bytes_of ''v1''\<rparr>,
                              \<lparr>Key = bytes_of ''k2'', Val = bytes_of ''v2''\<rparr>]))
       (Updated Fresh (Slice [\<lparr>Key = bytes_of ''k3'', Val = nil\<rparr>])))) \<and>
   run (Updated (Updated Fresh
       (Slice [\<lparr>Key = bytes_of ''k3'', Val = nil\<rparr>, \<lparr>Key = bytes_of ''k1'', Val = bytes_of ''v1''\<rparr>]))
       (Slice [\<lparr>Key = bytes_of ''k2'', Val = bytes_of ''v2''\<rparr>])) =
   run (Merged
       (Updated Fresh (Slice [\<lparr>Key = bytes_of ''k1'', Val = bytes_of ''v1''\<rparr>,
                              \<lparr>Key = bytes_of ''k2'', Val = bytes_of ''v2''\<rparr>]))
       (Updated Fresh (Slice [\<lparr>Key = bytes_of ''k3'', Val = nil\<rparr>])))"
proof -
  let ?p1 = "\<lparr>Key = bytes_of ''k1'', Val = bytes_of ''v1''\<rparr>"
  let ?p2 = "\<lparr>Key = bytes_of ''k2'', Val = bytes_of ''v2''\<rparr>"
  let ?p3 = "\<lparr>Key = bytes_of ''k3'', Val = nil\<rparr>"
  let ?h = "Merged (Updated Fresh (Slice [?p1, ?p2])) (Updated Fresh (Slice [?p3]))"
  let ?h' = "Updated (Updated Fresh (Slice [?p3, ?p1])) (Slice [?p2])"
  have h: "mset (folded ?h') = mset (folded ?h)" by simp
  have "\<forall>h'. mset (folded h') = mset (folded ?h) \<longrightarrow> run h' = run ?h"
    by (rule accumulator_invariant [THEN conjunct2, THEN conjunct2, THEN conjunct2])
  with h have "run ?h' = run ?h" by blast
  with h show ?thesis by (intro conjI)
qed

text \<open>
  C7. Folding the same pair \<open>p\<close> into two empty accumulators and merging them gives the
  checksum of the empty accumulator, as if \<open>p\<close> had never been folded in, while \<open>kvs\<close>
  is 2 and \<open>bytes\<close> is twice \<open>len(key) + len(value)\<close>.
\<close>

theorem duplicate_cancellation:
  "Sum (Add (Update (NewKVChecksum 0) (Slice [p])) (Update (NewKVChecksum 0) (Slice [p]))) =
     Sum (NewKVChecksum 0) \<and>
   SumKVS (Add (Update (NewKVChecksum 0) (Slice [p])) (Update (NewKVChecksum 0) (Slice [p]))) = 2 \<and>
   SumSize (Add (Update (NewKVChecksum 0) (Slice [p])) (Update (NewKVChecksum 0) (Slice [p]))) =
     2 * of_nat (pair_len p)"
  by (simp add: Sum_def SumKVS_def SumSize_def Add_fields Update_fields NewKVChecksum_def)

text \<open>
  C8. The empty accumulator, constructed with checksum 0, reports \<open>SumSize() = 0\<close>,
  \<open>SumKVS() = 0\<close> and \<open>Sum() = 0\<close>, and merging any accumulator with it, on either
  side, leaves that accumulator unchanged.
\<close>

theorem empty_accumulator_identity:
  "SumSize (NewKVChecksum 0) = 0 \<and> SumKVS (NewKVChecksum 0) = 0 \<and>
   Sum (NewKVChecksum 0) = 0 \<and>
   Add c (NewKVChecksum 0) = c \<and> Add (NewKVChecksum 0) c = c"
  by (simp add: Add_fields NewKVChecksum_def SumSize_def SumKVS_def Sum_def)


text \<open>
  C10. \<open>NewKVChecksum(c)\<close> reports \<open>SumSize() = 0\<close>, \<open>SumKVS() = 0\<close> and \<open>Sum() = c\<close>;
  when \<open>c\<close> is not 0 it is not the all-zero accumulator and merging it into an
  accumulator changes that accumulator; the accessors of \<open>MakeKVChecksum(b, k, c)\<close>
  return \<open>b\<close>, \<open>k\<close> and \<open>c\<close>.
\<close>

theorem constructors_accessors:
  "SumSize (NewKVChecksum c) = 0 \<and> SumKVS (NewKVChecksum c) = 0 \<and>
   Sum (NewKVChecksum c) = c \<and>
   (c \<noteq> 0 \<longrightarrow> NewKVChecksum c \<noteq> MakeKVChecksum 0 0 0 \<and> Add a (NewKVChecksum c) \<noteq> a) \<and>
   SumSize (MakeKVChecksum b k c) = b \<and> SumKVS (MakeKVChecksum b k c) = k \<and>
   Sum (MakeKVChecksum b k c) = c"
proof -
  have "Add a (NewKVChecksum c) \<noteq> a" if "c \<noteq> 0"
  proof
    assume "Add a (NewKVChecksum c) = a"
    then have "checksum (Add a (NewKVChecksum c)) = checksum a" by simp
    then have "checksum a XOR c = checksum a"
      by (simp add: Add_fields NewKVChecksum_def)
    then have "checksum a XOR (checksum a XOR c) = checksum a XOR checksum a"
      by simp
    then have "c = 0" by (simp flip: xor.assoc)
    with that show False by simp
  qed
  then show ?thesis
    by (simp add: NewKVChecksum_def MakeKVChecksum_def SumSize_def SumKVS_def Sum_def)
qed

theorem constructors_accessors_witness:
  "(1 :: uint64) \<noteq> 0 \<and> Sum (NewKVChecksum 1) = 1 \<and>
   NewKVChecksum 1 \<noteq> MakeKVChecksum 0 0 0 \<and>
   Add (MakeKVChecksum 4 1 9) (NewKVChecksum 1) \<noteq> MakeKVChecksum 4 1 9"
  using constructors_accessors [of 1 "MakeKVChecksum 4 1 9"] by simp

end
